theory Spec2Isabelle
  imports Main "HOL-Library.Char_ord" "HOL-Library.List_Lexorder" "HOL-Library.Word"
begin

section \<open>Python strings\<close>

text \<open>
  A Python \<open>str\<close> is modelled as a \<open>string\<close>: the code points below 256. The functions
  of this section are the methods of \<open>str\<close> that \<open>main_pr_aepx.py\<close> calls, on that range.
\<close>

abbreviation (input) dquote :: char where "dquote \<equiv> CHR 0x22"
abbreviation (input) squote :: char where "squote \<equiv> CHR 0x27"
abbreviation (input) bslash :: char where "bslash \<equiv> CHR 0x5C"
abbreviation (input) fslash :: char where "fslash \<equiv> CHR 0x2F"
abbreviation (input) colon :: char where "colon \<equiv> CHR 0x3A"
abbreviation (input) dot :: char where "dot \<equiv> CHR 0x2E"

definition isspace :: "char \<Rightarrow> bool" where
  \<comment> \<open>\<open>str.isspace\<close> below 256: TAB..CR, FS..US, space, NEL and NBSP.\<close>
  "isspace c = (let n = (of_char c :: nat)
                in (9 \<le> n \<and> n \<le> 13) \<or> (28 \<le> n \<and> n \<le> 32) \<or> n = 133 \<or> n = 160)"

definition lower_char :: "char \<Rightarrow> char" where
  \<comment> \<open>\<open>str.lower\<close> on one code point below 256: A..Z and the Latin-1 capitals.\<close>
  "lower_char c = (let n = (of_char c :: nat)
                   in if (65 \<le> n \<and> n \<le> 90) \<or> (192 \<le> n \<and> n \<le> 222 \<and> n \<noteq> 215)
                      then char_of (n + 32) else c)"

definition lower :: "string \<Rightarrow> string" where
  "lower s = map lower_char s"

definition ascii_upper_char :: "char \<Rightarrow> char" where
  "ascii_upper_char c = (let n = (of_char c :: nat)
                         in if 97 \<le> n \<and> n \<le> 122 then char_of (n - 32) else c)"

definition lstrip :: "(char \<Rightarrow> bool) \<Rightarrow> string \<Rightarrow> string" where
  "lstrip P s = dropWhile P s"

definition rstrip :: "(char \<Rightarrow> bool) \<Rightarrow> string \<Rightarrow> string" where
  "rstrip P s = rev (dropWhile P (rev s))"

definition strip :: "string \<Rightarrow> string" where
  \<comment> \<open>\<open>s.strip()\<close>\<close>
  "strip s = rstrip isspace (lstrip isspace s)"

definition strip_chars :: "string \<Rightarrow> string \<Rightarrow> string" where
  \<comment> \<open>\<open>s.strip(chars)\<close>: every leading and trailing character that is in \<open>chars\<close>.\<close>
  "strip_chars cs s = rstrip (\<lambda>c. c \<in> set cs) (lstrip (\<lambda>c. c \<in> set cs) s)"

definition startswith :: "string \<Rightarrow> string \<Rightarrow> bool" where
  \<comment> \<open>\<open>s.startswith(p)\<close>\<close>
  "startswith p s = (take (length p) s = p)"

definition endswith :: "string \<Rightarrow> string \<Rightarrow> bool" where
  \<comment> \<open>\<open>s.endswith(e)\<close>\<close>
  "endswith e s = (length e \<le> length s \<and> drop (length s - length e) s = e)"

fun contains :: "string \<Rightarrow> string \<Rightarrow> bool" where
  \<comment> \<open>\<open>sub in s\<close>\<close>
  "contains sub [] = (sub = [])"
| "contains sub (x # xs) = (startswith sub (x # xs) \<or> contains sub xs)"

fun split_on :: "char \<Rightarrow> string \<Rightarrow> string list" where
  \<comment> \<open>\<open>s.split(c)\<close> for a separator of one character\<close>
  "split_on c [] = ['''']"
| "split_on c (x # xs) =
     (if x = c then [] # split_on c xs
      else (case split_on c xs of w # ws \<Rightarrow> (x # w) # ws | [] \<Rightarrow> [x # '''']))"

definition replace_char :: "char \<Rightarrow> char \<Rightarrow> string \<Rightarrow> string" where
  \<comment> \<open>\<open>s.replace(a, b)\<close> for single characters\<close>
  "replace_char a b s = map (\<lambda>c. if c = a then b else c) s"

definition find_from :: "char \<Rightarrow> nat \<Rightarrow> string \<Rightarrow> nat option" where
  \<comment> \<open>\<open>s.find(c, start)\<close>, with \<open>None\<close> for -1\<close>
  "find_from c start s =
     (let r = drop start s
      in if c \<in> set r then Some (start + length (takeWhile (\<lambda>x. x \<noteq> c) r)) else None)"

fun rfind :: "char \<Rightarrow> string \<Rightarrow> nat option" where
  \<comment> \<open>\<open>s.rfind(c)\<close>, with \<open>None\<close> for -1\<close>
  "rfind c [] = None"
| "rfind c (x # xs) =
     (case rfind c xs of Some i \<Rightarrow> Some (Suc i)
      | None \<Rightarrow> if x = c then Some 0 else None)"

section \<open>pathlib\<close>

text \<open>
  \<open>PurePosixPath(s).name\<close> and \<open>PureWindowsPath(s).name\<close> as CPython 3.12 computes them:
  the path is split into drive, root and the rest by \<open>posixpath.splitroot\<close> or
  \<open>ntpath.splitroot\<close>, the rest is split at the separator, empty components and \<open>.\<close> are
  dropped, and the name is the last component left, or the empty string.
\<close>

definition tail_name :: "char \<Rightarrow> string \<Rightarrow> string" where
  "tail_name sep rel =
     (case filter (\<lambda>x. x \<noteq> [] \<and> x \<noteq> [dot]) (split_on sep rel) of
        [] \<Rightarrow> []
      | p # ps \<Rightarrow> last (p # ps))"

definition posix_rel :: "string \<Rightarrow> string" where
  \<comment> \<open>third component of \<open>posixpath.splitroot(p)\<close>\<close>
  "posix_rel p =
     (if take 1 p \<noteq> [fslash] then p
      else if take 1 (drop 1 p) \<noteq> [fslash] \<or> take 1 (drop 2 p) = [fslash] then drop 1 p
      else drop 2 p)"

definition PurePosixPath_name :: "string \<Rightarrow> string" where
  "PurePosixPath_name s = (if s = [] then [] else tail_name fslash (posix_rel s))"

definition unc_prefix :: string where
  "unc_prefix = [bslash, bslash, CHR ''?'', bslash, CHR ''U'', CHR ''N'', CHR ''C'', bslash]"

definition nt_rel :: "string \<Rightarrow> string" where
  \<comment> \<open>third component of \<open>ntpath.splitroot(p)\<close>, for \<open>p\<close> with \<open>/\<close> already replaced\<close>
  "nt_rel p =
     (if take 1 p = [bslash] then
        (if take 1 (drop 1 p) = [bslash] then
           (let start = (if map ascii_upper_char (take 8 p) = unc_prefix then 8 else 2)
            in case find_from bslash start p of
                 None \<Rightarrow> []
               | Some index \<Rightarrow>
                   (case find_from bslash (index + 1) p of
                      None \<Rightarrow> []
                    | Some index2 \<Rightarrow> drop (index2 + 1) p))
         else drop 1 p)
      else if take 1 (drop 1 p) = [colon] then
        (if take 1 (drop 2 p) = [bslash] then drop 3 p else drop 2 p)
      else p)"

definition PureWindowsPath_name :: "string \<Rightarrow> string" where
  "PureWindowsPath_name s =
     (if s = [] then [] else tail_name bslash (nt_rel (replace_char fslash bslash s)))"

section \<open>Path normalisation\<close>

definition long_path_prefix :: string where
  "long_path_prefix = [bslash, bslash, CHR ''?'', bslash]"

definition clean_to_filename :: "string \<Rightarrow> string" where
  \<comment> \<open>\<open>_clean_to_filename\<close>\<close>
  "clean_to_filename raw =
     (let s = strip_chars [squote] (strip_chars [dquote] (strip raw));
          s = (if startswith long_path_prefix s then drop 4 s else s);
          name = PureWindowsPath_name s;
          name = (if name = [] \<or> name = s then PurePosixPath_name s else name)
      in name)"

definition suffix_of :: "string \<Rightarrow> string" where
  \<comment> \<open>\<open>PurePath.suffix\<close>, from the name\<close>
  "suffix_of name =
     (case rfind dot name of
        None \<Rightarrow> []
      | Some i \<Rightarrow> if 0 < i \<and> int i < int (length name) - 1 then drop i name else [])"

definition suffixes_of :: "string \<Rightarrow> string list" where
  \<comment> \<open>\<open>PurePath.suffixes\<close>, from the name\<close>
  "suffixes_of name =
     (if endswith [dot] name then []
      else map (\<lambda>x. dot # x) (tl (split_on dot (lstrip (\<lambda>c. c = dot) name))))"

definition last_two :: "'a list \<Rightarrow> 'a list" where
  \<comment> \<open>\<open>xs[-2:]\<close>\<close>
  "last_two xs = drop (length xs - 2) xs"

datatype platform = Posix | Windows

definition Path_name :: "platform \<Rightarrow> string \<Rightarrow> string" where
  \<comment> \<open>\<open>Path(p).name\<close>: \<open>Path\<close> is \<open>PosixPath\<close> or \<open>WindowsPath\<close> with the platform\<close>
  "Path_name pf p = (case pf of Posix \<Rightarrow> PurePosixPath_name p | Windows \<Rightarrow> PureWindowsPath_name p)"

section \<open>The world outside the program\<close>

text \<open>
  The program reads files and calls \<open>gzip\<close>, the codecs, \<open>xml.etree.ElementTree\<close> and
  \<open>lxml\<close>. None of them is code of the repository: they are the fields of an environment
  that every function below takes, each a function of what the program hands to it, with
  \<open>None\<close> where the call raises.
\<close>

type_synonym byte = "8 word"

text \<open>
  The \<open>tag\<close> of an element is its name; the \<open>tag\<close> of a comment or of a processing
  instruction, which an \<open>lxml\<close> tree keeps, is a function.
\<close>

datatype xtag = Name string | FunctionTag

datatype xml = Element (etag: xtag) (etext: "string option") (children: "xml list")

fun iter :: "xml \<Rightarrow> xml list" where
  \<comment> \<open>\<open>root.iter()\<close>: the element and its descendants in document order\<close>
  "iter (Element t x cs) = Element t x cs # concat (map iter cs)"

text \<open>
  A node of the file system, with its name: a symbolic link carries the node it resolves
  to, if any; \<open>Other\<close> is a socket, a FIFO or a device.
\<close>

datatype fsnode =
    Regular (nm: string)
  | Directory (nm: string) (entries: "fsnode list")
  | Symlink (nm: string) (target: "fsnode option")
  | Other (nm: string)

fun resolve :: "fsnode \<Rightarrow> fsnode option" where
  "resolve (Symlink n None) = None"
| "resolve (Symlink n (Some t)) = resolve t"
| "resolve f = Some f"

definition is_file :: "fsnode \<Rightarrow> bool" where
  \<comment> \<open>\<open>Path.is_file()\<close> follows symbolic links\<close>
  "is_file f = (case resolve f of Some (Regular n) \<Rightarrow> True | _ \<Rightarrow> False)"

fun rglob :: "fsnode \<Rightarrow> fsnode list" where
  \<comment> \<open>\<open>rglob('*')\<close>: every entry beneath a directory; a link to a directory is an entry and
      is not descended into\<close>
  "rglob (Directory n es) = concat (map (\<lambda>e. e # rglob e) es)"
| "rglob f = []"

record env =
  platform :: platform
  read_file :: "string \<Rightarrow> byte list option"  \<comment> \<open>the bytes of the file at a path\<close>
  lookup :: "string \<Rightarrow> fsnode option"  \<comment> \<open>the file-system node at a path\<close>
  gunzip :: "byte list \<Rightarrow> byte list option"  \<comment> \<open>\<open>gzip\<close> decompression\<close>
  utf8_strict :: "byte list \<Rightarrow> string option"  \<comment> \<open>decoding with \<open>encoding='utf-8'\<close>\<close>
  utf8_sig_ignore :: "byte list \<Rightarrow> string"  \<comment> \<open>\<open>decode('utf-8-sig', errors='ignore')\<close>\<close>
  ET_fromstring :: "string \<Rightarrow> xml option"  \<comment> \<open>the strict parser, on text\<close>
  ET_parse :: "byte list \<Rightarrow> xml option"  \<comment> \<open>the strict parser, on a file\<close>
  lxml_recover :: "(string \<Rightarrow> xml option) option"
    \<comment> \<open>\<open>lxml\<close> with \<open>recover=True\<close>; \<open>None\<close> when \<open>lxml\<close> is not installed\<close>

text \<open>
  The exceptions the functions raise. \<open>ValueError\<close> is the one of line 122 and carries the
  suffix its message names (UnsupportedFormat in the specification); \<open>ParseError\<close> is the
  strict parser's (MalformedProject in the specification).
\<close>

datatype error =
    ValueError string
  | OSError
  | BadGzipFile
  | UnicodeDecodeError
  | ParseError
  | UnboundLocalError
  | AttributeError

datatype io_event = ReadFile string | ScanFolder string

section \<open>Parsing the project\<close>

definition read_container :: "env \<Rightarrow> byte list \<Rightarrow> error + string" where
  \<comment> \<open>lines 108 to 114: the gzip magic decides between decompression and raw decoding\<close>
  "read_container e bs =
     (let magic = take 2 bs
      in if magic = [0x1f, 0x8b] then
           (case gunzip e bs of
              None \<Rightarrow> Inl BadGzipFile
            | Some d \<Rightarrow> (case utf8_strict e d of None \<Rightarrow> Inl UnicodeDecodeError | Some s \<Rightarrow> Inr s))
         else Inr (utf8_sig_ignore e bs))"

definition reparse :: "env \<Rightarrow> string option \<Rightarrow> error + xml" where
  \<comment> \<open>lines 125 to 133; \<open>content\<close> is \<open>None\<close> when the variable was never assigned\<close>
  "reparse e content =
     (let lenient = (case lxml_recover e of
                       None \<Rightarrow> None
                     | Some p \<Rightarrow> (case content of None \<Rightarrow> None | Some c \<Rightarrow> p c))
      in case lenient of
           Some root_xml \<Rightarrow> Inr root_xml
         | None \<Rightarrow>
             (case content of
                None \<Rightarrow> Inl UnboundLocalError
              | Some c \<Rightarrow> (case ET_fromstring e c of None \<Rightarrow> Inl ParseError | Some r \<Rightarrow> Inr r)))"

definition candidate_tags :: "string list" where
  "candidate_tags = [''Path'', ''FilePath'', ''ActualMediaFilePath'', ''AbsolutePath'']"

definition visit :: "xml \<Rightarrow> string set \<Rightarrow> error + string set" where
  \<comment> \<open>the body of the loop, lines 138 to 141\<close>
  "visit elem filenames =
     (case etext elem of
        None \<Rightarrow> Inr filenames
      | Some t \<Rightarrow>
          if t = [] then Inr filenames
          else (case etag elem of
                  FunctionTag \<Rightarrow> Inl AttributeError
                | Name tg \<Rightarrow>
                    if list_ex (\<lambda>c. contains (lower c) (lower tg)) candidate_tags then
                      (let name = clean_to_filename t
                       in if dot \<in> set name then Inr (insert name filenames) else Inr filenames)
                    else Inr filenames))"

fun collect :: "xml list \<Rightarrow> string set \<Rightarrow> error + string set" where
  "collect [] filenames = Inr filenames"
| "collect (elem # elems) filenames =
     (case visit elem filenames of Inl err \<Rightarrow> Inl err | Inr fs \<Rightarrow> collect elems fs)"

definition extract_filenames :: "env \<Rightarrow> string option \<Rightarrow> error + string set" where
  \<comment> \<open>lines 124 to 142\<close>
  "extract_filenames e content =
     (case reparse e content of Inl err \<Rightarrow> Inl err | Inr root_xml \<Rightarrow> collect (iter root_xml) {})"

definition parse_project_filenames :: "env \<Rightarrow> string \<Rightarrow> io_event list \<times> (error + string set)" where
  "parse_project_filenames e project_path =
     (let name = Path_name (platform e) project_path;
          suffix = lower (suffix_of name)
      in if suffix = ''.prproj'' \<or> last_two (suffixes_of name) = [''.prproj'', ''.gz''] then
           (case read_file e project_path of
              None \<Rightarrow> ([ReadFile project_path], Inl OSError)
            | Some bs \<Rightarrow>
                (case read_container e bs of
                   Inl err \<Rightarrow> ([ReadFile project_path], Inl err)
                 | Inr content \<Rightarrow>
                     (case ET_fromstring e content of
                        None \<Rightarrow> ([ReadFile project_path], Inl ParseError)
                      | Some root_xml \<Rightarrow> ([ReadFile project_path], extract_filenames e (Some content)))))
         else if suffix = ''.aepx'' then
           (case read_file e project_path of
              None \<Rightarrow> ([ReadFile project_path], Inl OSError)
            | Some bs \<Rightarrow>
                (case ET_parse e bs of
                   None \<Rightarrow> ([ReadFile project_path], Inl ParseError)
                 | Some root_xml \<Rightarrow> ([ReadFile project_path], extract_filenames e None)))
         else ([], Inl (ValueError suffix)))"

section \<open>Scanning the folder and comparing\<close>

definition scan_folder_filenames :: "env \<Rightarrow> string \<Rightarrow> io_event list \<times> string set" where
  "scan_folder_filenames e folder_path =
     ([ScanFolder folder_path],
      (case lookup e folder_path of
         None \<Rightarrow> {}
       | Some f \<Rightarrow>
           (case resolve f of
              Some (Directory n es) \<Rightarrow> set (map nm (filter is_file (rglob (Directory n es))))
            | _ \<Rightarrow> {})))"

definition IGNORE_EXTENSIONS :: "string list" where
  "IGNORE_EXTENSIONS = [''.pek'', ''.epr'', ''.cfa'']"

definition IGNORE_SUBSTRINGS :: "string list" where
  "IGNORE_SUBSTRINGS = [''_proxy'', ''_subclip'']"

definition is_ignored :: "string \<Rightarrow> bool" where
  "is_ignored filename =
     (let lo = lower filename
      in if list_ex (\<lambda>ext. endswith ext lo) IGNORE_EXTENSIONS then True
         else if list_ex (\<lambda>sub. contains sub lo) IGNORE_SUBSTRINGS then True
         else False)"

definition compare_filenames ::
  "env \<Rightarrow> string \<Rightarrow> string \<Rightarrow> io_event list \<times> (error + string list \<times> string list \<times> string list)" where
  "compare_filenames e project_file folder_path =
     (case parse_project_filenames e project_file of
        (t1, Inl err) \<Rightarrow> (t1, Inl err)
      | (t1, Inr project_files_raw) \<Rightarrow>
          (let (t2, actual_files_raw) = scan_folder_filenames e folder_path;
               project_files = {f \<in> project_files_raw. \<not> is_ignored f};
               actual_files = {f \<in> actual_files_raw. \<not> is_ignored f};
               matched = sorted_list_of_set (project_files \<inter> actual_files);
               missing = sorted_list_of_set (project_files - actual_files);
               extra = sorted_list_of_set (actual_files - project_files)
           in (t1 @ t2, Inr (matched, missing, extra))))"

section \<open>An example studio\<close>

text \<open>
  One environment for the examples below: a POSIX machine with four project files, a media
  folder and a folder of links. Its library functions are given at the inputs the examples
  hand to them: the decoders on ASCII bytes and on the single byte \<open>0xff\<close>, the parsers on
  the two documents, \<open>gunzip\<close> on the one compressed file (the gzip stream of the byte
  \<open>0xff\<close>).
\<close>

definition ascii_bytes :: "string \<Rightarrow> byte list" where
  "ascii_bytes s = map (\<lambda>c. of_nat (of_char c)) s"

definition ascii_text :: "byte list \<Rightarrow> string option" where
  "ascii_text bs = (if list_all (\<lambda>b. b < 0x80) bs then Some (map (\<lambda>b. char_of (unat b)) bs) else None)"

definition cut_xml :: string where
  "cut_xml = ''<r><FilePath>/x/a.mp4</FilePath><Path>b.mov</Path><Path>proxy_a_proxy.mp4</Path></r>''"

definition cut_tree :: xml where
  "cut_tree = Element (Name ''r'') None
     [Element (Name ''FilePath'') (Some ''/x/a.mp4'') [],
      Element (Name ''Path'') (Some ''b.mov'') [],
      Element (Name ''Path'') (Some ''proxy_a_proxy.mp4'') []]"

definition broken_xml :: string where
  \<comment> \<open>the tag \<open>b\<close> is never closed\<close>
  "broken_xml = ''<r><Path>a.mp4</Path><b></r>''"

definition broken_tree :: xml where
  \<comment> \<open>what the recovering parser makes of \<open>broken_xml\<close>\<close>
  "broken_tree = Element (Name ''r'') None
     [Element (Name ''Path'') (Some ''a.mp4'') [], Element (Name ''b'') None []]"

definition bad_gz :: "byte list" where
  \<comment> \<open>the gzip stream of the single byte \<open>0xff\<close>, which is not UTF-8\<close>
  "bad_gz = [0x1f, 0x8b, 0x08, 0x00, 0x00, 0x00, 0x00, 0x00, 0x02, 0x03, 0xfb, 0x0f,
             0x00, 0x00, 0x00, 0x00, 0xff, 0x01, 0x00, 0x00, 0x00]"

definition media_tree :: fsnode where
  "media_tree = Directory ''media''
     [Regular ''a.mp4'',
      Directory ''sub'' [Regular ''c.mov'', Regular ''proxy_a_proxy.mp4'']]"

definition links_tree :: fsnode where
  "links_tree = Directory ''links''
     [Symlink ''l.mp4'' (Some (Regular ''master.mp4'')),
      Symlink ''gone.mp4'' None,
      Symlink ''dir'' (Some (Directory ''sub'' [Regular ''c.mov'']))]"

definition studio :: env where
  "studio =
     \<lparr> platform = Posix,
       read_file = map_of
         [(''/proj/cut.prproj'', ascii_bytes cut_xml),
          (''/proj/broken.prproj'', ascii_bytes broken_xml),
          (''/proj/bad.prproj'', bad_gz),
          (''/proj/comp.aepx'', ascii_bytes cut_xml),
          (''/proj/notes.txt'', ascii_bytes ''a.mp4'')],
       lookup = map_of [(''/media'', media_tree), (''/links'', links_tree)],
       gunzip = map_of [(bad_gz, [0xff])],
       utf8_strict = ascii_text,
       utf8_sig_ignore = (\<lambda>bs. case ascii_text bs of Some s \<Rightarrow> s | None \<Rightarrow> []),
       ET_fromstring = map_of [(cut_xml, cut_tree)],
       ET_parse = map_of [(ascii_bytes cut_xml, cut_tree)],
       lxml_recover = Some (map_of [(cut_xml, cut_tree), (broken_xml, broken_tree)]) \<rparr>"

section \<open>Notions used in the statements\<close>

text \<open>
  A string is unpadded for a set of characters when neither its first nor its last
  character is in the set.
\<close>

definition unpadded :: "(char \<Rightarrow> bool) \<Rightarrow> string \<Rightarrow> bool" where
  "unpadded P s = list_all (\<lambda>c. \<not> P c) (take 1 s @ take 1 (rev s))"

text \<open>
  An entry is beneath a directory when it is one of its entries or beneath one of its
  subdirectories; a link to a directory is an entry, with nothing beneath it.
\<close>

inductive beneath :: "fsnode \<Rightarrow> fsnode \<Rightarrow> bool" where
  child: "f \<in> set es \<Longrightarrow> beneath f (Directory n es)"
| deeper: "d \<in> set es \<Longrightarrow> beneath f d \<Longrightarrow> beneath f (Directory n es)"

section \<open>Reconciliation\<close>

lemma studio_compare:
  "compare_filenames studio ''/proj/cut.prproj'' ''/media'' =
     ([ReadFile ''/proj/cut.prproj'', ScanFolder ''/media''],
      Inr ([''a.mp4''], [''b.mov''], [''c.mov'']))"
  by code_simp

lemma finite_visit: "visit elem fs = Inr fs' \<Longrightarrow> finite fs \<Longrightarrow> finite fs'"
  by (auto simp: visit_def Let_def split: option.splits if_splits xtag.splits)

lemma finite_collect: "collect elems fs = Inr fs' \<Longrightarrow> finite fs \<Longrightarrow> finite fs'"
proof (induction elems arbitrary: fs)
  case Nil
  then show ?case by simp
next
  case (Cons elem elems)
  then show ?case
    by (auto split: sum.splits dest: finite_visit)
qed

lemma finite_extract: "extract_filenames e content = Inr fs \<Longrightarrow> finite fs"
  by (auto simp: extract_filenames_def split: sum.splits dest: finite_collect)

lemma finite_parse: "parse_project_filenames e p = (t, Inr fs) \<Longrightarrow> finite fs"
  by (auto simp: parse_project_filenames_def Let_def split: option.splits sum.splits if_splits
           dest: finite_extract)

lemma finite_scan: "finite (snd (scan_folder_filenames e f))"
  by (auto simp: scan_folder_filenames_def split: option.splits fsnode.splits)

text \<open>
  What a successful comparison returns: the three sorted lists of the intersection and the
  two differences of the filtered sets.
\<close>

lemma compare_success:
  assumes "snd (compare_filenames e p f) = Inr (matched, missing, extra)"
  obtains t declared where
    "parse_project_filenames e p = (t, Inr declared)"
    "matched = sorted_list_of_set ({x \<in> declared. \<not> is_ignored x} \<inter>
                 {x \<in> snd (scan_folder_filenames e f). \<not> is_ignored x})"
    "missing = sorted_list_of_set ({x \<in> declared. \<not> is_ignored x} -
                 {x \<in> snd (scan_folder_filenames e f). \<not> is_ignored x})"
    "extra = sorted_list_of_set ({x \<in> snd (scan_folder_filenames e f). \<not> is_ignored x} -
                 {x \<in> declared. \<not> is_ignored x})"
  using assms
  by (auto simp: compare_filenames_def Let_def split: prod.splits sum.splits)

text \<open>
  Claim C3. Whenever \<open>compare_filenames\<close> succeeds, \<open>matched\<close>, \<open>missing\<close> and \<open>extra\<close> are
  pairwise disjoint, \<open>matched\<close> and \<open>missing\<close> together are the declared set without its
  ignored names, and \<open>matched\<close> and \<open>extra\<close> together are the disk set without its ignored
  names.
\<close>

theorem compare_partitions:
  assumes "snd (compare_filenames e p f) = Inr (matched, missing, extra)"
  shows "\<exists>declared. snd (parse_project_filenames e p) = Inr declared \<and>
           set matched \<inter> set missing = {} \<and>
           set matched \<inter> set extra = {} \<and>
           set missing \<inter> set extra = {} \<and>
           set matched \<union> set missing = {x \<in> declared. \<not> is_ignored x} \<and>
           set matched \<union> set extra = {x \<in> snd (scan_folder_filenames e f). \<not> is_ignored x}"
proof -
  let ?disk = "{x \<in> snd (scan_folder_filenames e f). \<not> is_ignored x}"
  from assms obtain t declared where
    p: "parse_project_filenames e p = (t, Inr declared)" and
    m: "matched = sorted_list_of_set ({x \<in> declared. \<not> is_ignored x} \<inter> ?disk)" and
    mi: "missing = sorted_list_of_set ({x \<in> declared. \<not> is_ignored x} - ?disk)" and
    ex: "extra = sorted_list_of_set (?disk - {x \<in> declared. \<not> is_ignored x})"
    by (rule compare_success)
  have fd: "finite declared" using p by (rule finite_parse)
  have fs: "finite (snd (scan_folder_filenames e f))" by (rule finite_scan)
  have sm: "set matched = {x \<in> declared. \<not> is_ignored x} \<inter> ?disk"
    unfolding m using fd fs by simp
  have smi: "set missing = {x \<in> declared. \<not> is_ignored x} - ?disk"
    unfolding mi using fd fs by simp
  have sex: "set extra = ?disk - {x \<in> declared. \<not> is_ignored x}"
    unfolding ex using fd fs by simp
  show ?thesis
    unfolding sm smi sex using p by auto
qed

theorem compare_partitions_witness:
  "snd (compare_filenames studio ''/proj/cut.prproj'' ''/media'') =
     Inr ([''a.mp4''], [''b.mov''], [''c.mov'']) \<and>
   (\<exists>declared. snd (parse_project_filenames studio ''/proj/cut.prproj'') = Inr declared \<and>
      set [''a.mp4''] \<inter> set [''b.mov''] = {} \<and>
      set [''a.mp4''] \<inter> set [''c.mov''] = {} \<and>
      set [''b.mov''] \<inter> set [''c.mov''] = {} \<and>
      set [''a.mp4''] \<union> set [''b.mov''] = {x \<in> declared. \<not> is_ignored x} \<and>
      set [''a.mp4''] \<union> set [''c.mov''] =
        {x \<in> snd (scan_folder_filenames studio ''/media''). \<not> is_ignored x})"
proof -
  have h: "snd (compare_filenames studio ''/proj/cut.prproj'' ''/media'') =
             Inr ([''a.mp4''], [''b.mov''], [''c.mov''])"
    by (simp add: studio_compare)
  show ?thesis
    using h compare_partitions [OF h] by blast
qed

text \<open>
  Claim C10. None of the three sequences that a successful comparison returns has a
  duplicate: each is the sorted list of a set.
\<close>

theorem sequences_distinct:
  assumes "snd (compare_filenames e p f) = Inr (matched, missing, extra)"
  shows "distinct matched \<and> distinct missing \<and> distinct extra"
  using assms by (elim compare_success) simp

theorem sequences_distinct_witness:
  "snd (compare_filenames studio ''/proj/cut.prproj'' ''/media'') =
     Inr ([''a.mp4''], [''b.mov''], [''c.mov'']) \<and>
   distinct [''a.mp4''] \<and> distinct [''b.mov''] \<and> distinct [''c.mov'']"
proof -
  have h: "snd (compare_filenames studio ''/proj/cut.prproj'' ''/media'') =
             Inr ([''a.mp4''], [''b.mov''], [''c.mov''])"
    by (simp add: studio_compare)
  show ?thesis
    using h sequences_distinct [OF h] by blast
qed

section \<open>Parsing: which branch, which parser, which decoder\<close>





text \<open>
  Claim C7. A project path that neither branch recognises (its lowered suffix is not
  \<open>.prproj\<close> or \<open>.aepx\<close>, and its last two suffixes are not \<open>.prproj\<close>, \<open>.gz\<close>, the
  other spelling of the compressed format) makes the comparison fail with the \<open>ValueError\<close>
  that names the suffix, and nothing has been read or scanned by then: the trace is empty.
\<close>

theorem unsupported_format_before_scan:
  assumes "lower (suffix_of (Path_name (platform e) p)) \<noteq> ''.prproj''"
    and "last_two (suffixes_of (Path_name (platform e) p)) \<noteq> [''.prproj'', ''.gz'']"
    and "lower (suffix_of (Path_name (platform e) p)) \<noteq> ''.aepx''"
  shows "compare_filenames e p f =
           ([], Inl (ValueError (lower (suffix_of (Path_name (platform e) p)))))"
  using assms by (simp add: compare_filenames_def parse_project_filenames_def Let_def)

lemma notes_name: "Path_name (platform studio) ''/proj/notes.txt'' = ''notes.txt''"
  by code_simp

lemma notes_suffix: "lower (suffix_of ''notes.txt'') = ''.txt''"
  by code_simp

lemma notes_suffixes: "last_two (suffixes_of ''notes.txt'') = [''.txt'']"
  by code_simp

theorem unsupported_format_before_scan_witness:
  "lower (suffix_of (Path_name (platform studio) ''/proj/notes.txt'')) = ''.txt'' \<and>
   compare_filenames studio ''/proj/notes.txt'' ''/media'' = ([], Inl (ValueError ''.txt''))"
  using unsupported_format_before_scan [of studio "''/proj/notes.txt''" "''/media''"]
  by (simp add: notes_name notes_suffix notes_suffixes)

text \<open>
  The block of lines 125 to 133, taken alone, does prefer the recovering parser: its tree
  is used whenever \<open>lxml\<close> is installed and returns one, and the strict parser decides
  otherwise.
\<close>

lemma reparse_prefers_lenient:
  "lxml_recover e = Some p \<Longrightarrow> p c = Some root_xml \<Longrightarrow> reparse e (Some c) = Inr root_xml"
  by (simp add: reparse_def)

lemma reparse_falls_back:
  "lxml_recover e = None \<or> (\<exists>p. lxml_recover e = Some p \<and> p c = None) \<Longrightarrow>
   reparse e (Some c) = (case ET_fromstring e c of None \<Rightarrow> Inl ParseError | Some r \<Rightarrow> Inr r)"
  by (auto simp: reparse_def)

text \<open>
  Claim C1. The claim says that the recovering parser runs first and that a document with
  an unterminated tag is still extracted. In the code the strict parser of line 115 runs
  before the recovering one of line 128: on the compressed route, a document that the
  strict parser rejects ends in \<open>ParseError\<close> whatever the recovering parser would make of
  it.
\<close>

theorem strict_parse_precedes_lenient:
  assumes "lower (suffix_of (Path_name (platform e) p)) = ''.prproj'' \<or>
           last_two (suffixes_of (Path_name (platform e) p)) = [''.prproj'', ''.gz'']"
    and "read_file e p = Some bs"
    and "read_container e bs = Inr content"
    and "ET_fromstring e content = None"
  shows "parse_project_filenames e p = ([ReadFile p], Inl ParseError)"
  using assms by (auto simp add: parse_project_filenames_def Let_def)

lemma broken_name: "lower (suffix_of (Path_name (platform studio) ''/proj/broken.prproj'')) = ''.prproj''"
  by code_simp

lemma broken_file: "read_file studio ''/proj/broken.prproj'' = Some (ascii_bytes broken_xml)"
  by code_simp

lemma broken_content: "read_container studio (ascii_bytes broken_xml) = Inr broken_xml"
  by code_simp

lemma broken_strict: "ET_fromstring studio broken_xml = None"
  by code_simp

lemma broken_lenient: "map_option (\<lambda>lenient. lenient broken_xml) (lxml_recover studio) = Some (Some broken_tree)"
  by code_simp

theorem strict_parse_precedes_lenient_witness:
  "map_option (\<lambda>lenient. lenient broken_xml) (lxml_recover studio) = Some (Some broken_tree) \<and>
   parse_project_filenames studio ''/proj/broken.prproj'' =
     ([ReadFile ''/proj/broken.prproj''], Inl ParseError)"
  using strict_parse_precedes_lenient [OF disjI1 [OF broken_name] broken_file broken_content broken_strict]
    broken_lenient
  by simp

text \<open>
  The suffix of a name is the last of its suffixes, when it has any: a path whose last two
  suffixes are \<open>.prproj\<close>, \<open>.gz\<close> has the suffix \<open>.gz\<close>, so the \<open>.aepx\<close> branch is never
  shadowed by the compressed one.
\<close>

lemma split_on_nonempty: "split_on c s \<noteq> []"
  by (induction s) (auto split: list.splits)

lemma split_on_absent: "c \<notin> set s \<Longrightarrow> split_on c s = [s]"
  by (induction s) auto

lemma split_on_at_separator: "split_on c (ys @ c # zs) = split_on c ys @ split_on c zs"
proof (induction ys)
  case Nil
  then show ?case by simp
next
  case (Cons y ys)
  then show ?case
    using split_on_nonempty [of c ys]
    by (cases "split_on c ys") auto
qed

lemma rfind_absent: "c \<notin> set s \<Longrightarrow> rfind c s = None"
  by (induction s) auto

lemma rfind_last: "c \<notin> set zs \<Longrightarrow> rfind c (ys @ c # zs) = Some (length ys)"
  by (induction ys) (simp_all add: rfind_absent)

lemma last_two_last:
  assumes "last_two xs = [a, b]"
  shows "xs \<noteq> [] \<and> last xs = b"
proof -
  from assms have ne: "xs \<noteq> []" by (auto simp: last_two_def)
  then have "length xs - 2 < length xs" by (cases xs) auto
  then have "last (drop (length xs - 2) xs) = last xs" by (rule last_drop)
  with assms ne show ?thesis by (simp add: last_two_def)
qed

lemma suffix_of_split:
  assumes "dot \<notin> set post" "post \<noteq> []" "front \<noteq> []"
  shows "suffix_of (front @ dot # post) = dot # post"
proof -
  have "rfind dot (front @ dot # post) = Some (length front)"
    using assms(1) by (rule rfind_last)
  moreover have "int (length front) < int (length (front @ dot # post)) - 1"
    using assms(2) by (cases post) simp_all
  ultimately show ?thesis
    using assms(3) by (simp add: suffix_of_def)
qed

lemma endswith_snoc: "endswith [c] (xs @ [c])"
  by (simp add: endswith_def)

lemma suffix_is_last_of_suffixes:
  assumes "suffixes_of name \<noteq> []"
  shows "suffix_of name = last (suffixes_of name)"
proof -
  define stem where "stem = dropWhile (\<lambda>c. c = dot) name"
  define dots where "dots = takeWhile (\<lambda>c. c = dot) name"
  have name: "name = dots @ stem"
    by (simp add: stem_def dots_def)
  from assms have open_end: "\<not> endswith [dot] name"
    and parts: "tl (split_on dot stem) \<noteq> []"
    and sufs: "suffixes_of name = map (\<lambda>x. dot # x) (tl (split_on dot stem))"
    by (auto simp: suffixes_of_def lstrip_def stem_def split: if_splits)
  have "dot \<in> set stem"
  proof (rule ccontr)
    assume "dot \<notin> set stem"
    then have "split_on dot stem = [stem]" by (rule split_on_absent)
    with parts show False by simp
  qed
  then obtain pre post where stem: "stem = pre @ dot # post" and post: "dot \<notin> set post"
    by (auto dest: split_list_last)
  have pre: "pre \<noteq> []"
  proof
    assume "pre = []"
    with stem have "hd stem = dot" "stem \<noteq> []" by simp_all
    then show False
      unfolding stem_def using hd_dropWhile [of "\<lambda>c. c = dot" name] by simp
  qed
  have post_ne: "post \<noteq> []"
  proof
    assume "post = []"
    with name stem have "name = (dots @ pre) @ [dot]" by simp
    then have "endswith [dot] name" by (simp only: endswith_snoc)
    with open_end show False by simp
  qed
  have "split_on dot stem = split_on dot pre @ [post]"
    using post by (simp add: stem split_on_at_separator split_on_absent)
  then have "tl (split_on dot stem) = tl (split_on dot pre) @ [post]"
    using split_on_nonempty [of dot pre] by simp
  then have l: "last (suffixes_of name) = dot # post"
    by (simp add: sufs)
  have "name = (dots @ pre) @ dot # post"
    using name stem by simp
  moreover have "suffix_of ((dots @ pre) @ dot # post) = dot # post"
    using post post_ne by (rule suffix_of_split) (simp add: pre)
  ultimately have "suffix_of name = dot # post"
    by (simp only:)
  with l show ?thesis by simp
qed

lemma double_suffix_gz:
  assumes "last_two (suffixes_of name) = [''.prproj'', ''.gz'']"
  shows "lower (suffix_of name) = ''.gz''"
proof -
  note l = last_two_last [OF assms]
  from l have "suffix_of name = last (suffixes_of name)"
    by (intro suffix_is_last_of_suffixes) (rule conjunct1)
  with l have "suffix_of name = ''.gz''"
    by (simp only:)
  then show ?thesis by (simp add: lower_def lower_char_def)
qed

lemma aepx_not_compressed:
  assumes "lower (suffix_of name) = ''.aepx''"
  shows "last_two (suffixes_of name) \<noteq> [''.prproj'', ''.gz'']"
  using assms double_suffix_gz [of name] by auto

text \<open>
  Claim C2. The claim says that a well-formed \<open>.aepx\<close> file yields its set of filenames.
  In the code the \<open>.aepx\<close> branch never assigns \<open>content\<close>, which both parsers of lines
  125 to 133 read: every \<open>.aepx\<close> file that the strict parser accepts ends in
  \<open>UnboundLocalError\<close>.
\<close>

theorem aepx_unbound_content:
  assumes "lower (suffix_of (Path_name (platform e) p)) = ''.aepx''"
    and "read_file e p = Some bs"
    and "ET_parse e bs = Some root_xml"
  shows "parse_project_filenames e p = ([ReadFile p], Inl UnboundLocalError)"
  using assms aepx_not_compressed [OF assms(1)]
  by (simp add: parse_project_filenames_def Let_def extract_filenames_def reparse_def
           split: option.splits)

lemma comp_suffix: "lower (suffix_of (Path_name (platform studio) ''/proj/comp.aepx'')) = ''.aepx''"
  by code_simp

lemma comp_file: "read_file studio ''/proj/comp.aepx'' = Some (ascii_bytes cut_xml)"
  by code_simp

lemma comp_parse: "ET_parse studio (ascii_bytes cut_xml) = Some cut_tree"
  by code_simp

theorem aepx_unbound_content_witness:
  "ET_parse studio (ascii_bytes cut_xml) = Some cut_tree \<and>
   parse_project_filenames studio ''/proj/comp.aepx'' =
     ([ReadFile ''/proj/comp.aepx''], Inl UnboundLocalError)"
  using aepx_unbound_content [OF comp_suffix comp_file comp_parse] comp_parse
  by simp

lemma upper_gz_name: "Path_name pf ''CUT.PRPROJ.GZ'' = ''CUT.PRPROJ.GZ''"
  by (cases pf) (simp_all add: Path_name_def, code_simp+)

lemma lower_gz_name: "Path_name pf ''cut.prproj.gz'' = ''cut.prproj.gz''"
  by (cases pf) (simp_all add: Path_name_def, code_simp+)

lemma upper_name: "Path_name pf ''CUT.PRPROJ'' = ''CUT.PRPROJ''"
  by (cases pf) (simp_all add: Path_name_def, code_simp+)

lemma upper_gz_suffix: "lower (suffix_of ''CUT.PRPROJ.GZ'') = ''.gz''"
  by code_simp

lemma upper_gz_suffixes: "last_two (suffixes_of ''CUT.PRPROJ.GZ'') = [''.PRPROJ'', ''.GZ'']"
  by code_simp

lemma lower_gz_suffixes: "last_two (suffixes_of ''cut.prproj.gz'') = [''.prproj'', ''.gz'']"
  by code_simp

lemma upper_suffix: "lower (suffix_of ''CUT.PRPROJ'') = ''.prproj''"
  by code_simp

lemma uppercase_double_suffix:
  "parse_project_filenames e ''CUT.PRPROJ.GZ'' = ([], Inl (ValueError ''.gz''))"
  by (simp add: parse_project_filenames_def Let_def upper_gz_name upper_gz_suffix upper_gz_suffixes)

lemma lowercase_double_suffix_read:
  "fst (parse_project_filenames e ''cut.prproj.gz'') = [ReadFile ''cut.prproj.gz'']"
  by (simp add: parse_project_filenames_def Let_def lower_gz_name lower_gz_suffixes
           split: option.splits sum.splits)

lemma uppercase_single_suffix_read:
  "fst (parse_project_filenames e ''CUT.PRPROJ'') = [ReadFile ''CUT.PRPROJ'']"
  by (simp add: parse_project_filenames_def Let_def upper_name upper_suffix
           split: option.splits sum.splits)

text \<open>
  Claim C4. The claim says that the compressed format is detected in any letter case, also
  for the double suffix. In the code only the single suffix is lowered: \<open>CUT.PRPROJ\<close> and
  \<open>cut.prproj.gz\<close> reach the compressed branch, which reads the file, and \<open>CUT.PRPROJ.GZ\<close>
  is rejected as the unsupported format \<open>.gz\<close> before anything is read.
\<close>

theorem uppercase_double_suffix_rejected:
  "parse_project_filenames e ''CUT.PRPROJ.GZ'' = ([], Inl (ValueError ''.gz'')) \<and>
   fst (parse_project_filenames e ''cut.prproj.gz'') = [ReadFile ''cut.prproj.gz''] \<and>
   fst (parse_project_filenames e ''CUT.PRPROJ'') = [ReadFile ''CUT.PRPROJ'']"
  by (intro conjI uppercase_double_suffix lowercase_double_suffix_read
        uppercase_single_suffix_read)











section \<open>Path normalisation: what is stripped\<close>

lemma unpadded_Nil: "unpadded P []"
  by (simp add: unpadded_def)

lemma take_1_rev: "s \<noteq> [] \<Longrightarrow> take (Suc 0) (rev s) = [last s]"
  by (cases s rule: rev_cases) simp_all

lemma take_1_hd: "s \<noteq> [] \<Longrightarrow> take (Suc 0) s = [hd s]"
  by (cases s) simp_all

lemma unpadded_iff: "unpadded P s \<longleftrightarrow> s = [] \<or> (\<not> P (hd s) \<and> \<not> P (last s))"
  by (cases "s = []") (simp_all add: unpadded_def take_1_rev take_1_hd hd_rev)

lemma lstrip_unpadded: "unpadded P s \<Longrightarrow> lstrip P s = s"
  by (cases s) (auto simp: unpadded_iff lstrip_def)

lemma rstrip_unpadded: "unpadded P s \<Longrightarrow> rstrip P s = s"
proof (cases "s = []")
  case True
  then show ?thesis by (simp add: rstrip_def)
next
  case False
  assume "unpadded P s"
  with False have "\<not> P (last s)" by (simp add: unpadded_iff)
  with False have "dropWhile P (rev s) = rev s"
    by (cases "rev s") (auto simp: last_rev hd_rev dest: arg_cong [where f = hd])
  then show ?thesis by (simp add: rstrip_def)
qed

lemma lstrip_pad: "list_all P a \<Longrightarrow> lstrip P (a @ s) = lstrip P s"
  by (simp add: lstrip_def dropWhile_append2 list_all_iff)

lemma rstrip_pad:
  assumes "list_all P b"
  shows "rstrip P (s @ b) = rstrip P s"
proof -
  have "dropWhile P (rev b @ rev s) = dropWhile P (rev s)"
    by (rule dropWhile_append2) (use assms in \<open>simp add: list_all_iff\<close>)
  then show ?thesis by (simp add: rstrip_def)
qed

lemma rstrip_lstrip_pad:
  assumes "list_all P b"
  shows "rstrip P (lstrip P (s @ b)) = rstrip P (lstrip P s)"
proof (cases "list_all P s")
  case True
  with assms have "dropWhile P (s @ b) = []" "dropWhile P s = []"
    by (simp_all add: list_all_iff dropWhile_eq_Nil_conv)
  then show ?thesis unfolding lstrip_def by (simp only:)
next
  case False
  then obtain x where "x \<in> set s" "\<not> P x" by (auto simp: list_all_iff)
  then have "dropWhile P (s @ b) = dropWhile P s @ b"
    by (rule dropWhile_append1)
  with assms show ?thesis by (simp add: lstrip_def rstrip_pad)
qed

lemma strip_gen_pad:
  assumes "list_all P a" "list_all P b"
  shows "rstrip P (lstrip P (a @ s @ b)) = rstrip P (lstrip P s)"
  using assms by (simp add: lstrip_pad rstrip_lstrip_pad)

lemma strip_pad: "list_all isspace a \<Longrightarrow> list_all isspace b \<Longrightarrow> strip (a @ s @ b) = strip s"
  by (simp add: strip_def strip_gen_pad)

lemma strip_chars_pad:
  "list_all (\<lambda>c. c \<in> set cs) a \<Longrightarrow> list_all (\<lambda>c. c \<in> set cs) b \<Longrightarrow>
   strip_chars cs (a @ s @ b) = strip_chars cs s"
  by (simp add: strip_chars_def strip_gen_pad)

lemma strip_unpadded: "unpadded isspace s \<Longrightarrow> strip s = s"
  by (simp add: strip_def lstrip_unpadded rstrip_unpadded)

lemma strip_chars_unpadded: "unpadded (\<lambda>c. c \<in> set cs) s \<Longrightarrow> strip_chars cs s = s"
  by (simp add: strip_chars_def lstrip_unpadded rstrip_unpadded)

lemma unpadded_wrap:
  assumes "unpadded P s" "list_all (\<lambda>c. \<not> P c) a" "list_all (\<lambda>c. \<not> P c) b"
  shows "unpadded P (a @ s @ b)"
proof -
  have h: "a @ s @ b \<noteq> [] \<Longrightarrow> \<not> P (hd (a @ s @ b))"
    using assms by (cases a; cases s; cases b) (auto simp: unpadded_iff)
  have l: "a @ s @ b \<noteq> [] \<Longrightarrow> \<not> P (last (a @ s @ b))"
    using assms
    by (cases b rule: rev_cases; cases s rule: rev_cases; cases a rule: rev_cases)
       (auto simp: unpadded_iff)
  show ?thesis using h l unfolding unpadded_iff by blast
qed

lemma isspace_quotes: "\<not> isspace dquote" "\<not> isspace squote"
  by (simp_all add: isspace_def)

lemma clean_cong:
  "strip_chars [squote] (strip_chars [dquote] (strip a)) =
   strip_chars [squote] (strip_chars [dquote] (strip b)) \<Longrightarrow>
   clean_to_filename a = clean_to_filename b"
  by (simp add: clean_to_filename_def)

text \<open>
  Claim C5, amended. The normalisation strips the surrounding whitespace, then every
  leading and trailing double quote, then every leading and trailing single quote, before
  it splits off the filename: whitespace around a string, any number of double quotes
  around a string without surrounding whitespace, and any number of single quotes around
  a string without surrounding whitespace or double quotes, all leave the result
  unchanged. A name in two layers of double quotes loses both.
\<close>

theorem clean_strips_every_layer:
  "(list_all isspace a \<and> list_all isspace b \<longrightarrow>
      clean_to_filename (a @ s @ b) = clean_to_filename s) \<and>
   (unpadded isspace s \<longrightarrow>
      clean_to_filename (replicate n dquote @ s @ replicate m dquote) = clean_to_filename s) \<and>
   (unpadded isspace s \<and> unpadded (\<lambda>c. c = dquote) s \<longrightarrow>
      clean_to_filename (replicate n squote @ s @ replicate m squote) = clean_to_filename s)"
proof (intro conjI impI)
  assume "list_all isspace a \<and> list_all isspace b"
  then show "clean_to_filename (a @ s @ b) = clean_to_filename s"
    by (intro clean_cong) (simp add: strip_pad)
next
  assume u: "unpadded isspace s"
  let ?r = "replicate n dquote @ s @ replicate m dquote"
  from u have "unpadded isspace ?r"
    by (rule unpadded_wrap) (simp_all add: list_all_iff isspace_quotes)
  then have "strip ?r = ?r" by (rule strip_unpadded)
  moreover have "strip_chars [dquote] ?r = strip_chars [dquote] s"
    by (rule strip_chars_pad) (simp_all add: list_all_iff)
  moreover have "strip s = s" using u by (rule strip_unpadded)
  ultimately show "clean_to_filename ?r = clean_to_filename s"
    by (intro clean_cong) simp
next
  assume "unpadded isspace s \<and> unpadded (\<lambda>c. c = dquote) s"
  then have u: "unpadded isspace s" and q: "unpadded (\<lambda>c. c = dquote) s" by simp_all
  let ?r = "replicate n squote @ s @ replicate m squote"
  from u have "unpadded isspace ?r"
    by (rule unpadded_wrap) (simp_all add: list_all_iff isspace_quotes)
  then have "strip ?r = ?r" by (rule strip_unpadded)
  moreover from q have "unpadded (\<lambda>c. c = dquote) ?r"
    by (rule unpadded_wrap) (simp_all add: list_all_iff)
  then have "strip_chars [dquote] ?r = ?r"
    using strip_chars_unpadded [of "[dquote]" ?r] by simp
  moreover have "strip_chars [squote] ?r = strip_chars [squote] s"
    by (rule strip_chars_pad) (simp_all add: list_all_iff)
  moreover have "strip s = s" using u by (rule strip_unpadded)
  moreover have "strip_chars [dquote] s = s"
    using q strip_chars_unpadded [of "[dquote]" s] by simp
  ultimately show "clean_to_filename ?r = clean_to_filename s"
    by (intro clean_cong) simp
qed


theorem clean_strips_every_layer_witness:
  "list_all isspace '' '' \<and> unpadded isspace ''a.mp4'' \<and> unpadded (\<lambda>c. c = dquote) ''a.mp4'' \<and>
   clean_to_filename ('' '' @ ''a.mp4'' @ '' '') = clean_to_filename ''a.mp4'' \<and>
   clean_to_filename (replicate 2 dquote @ ''a.mp4'' @ replicate 2 dquote) = clean_to_filename ''a.mp4'' \<and>
   clean_to_filename (replicate 2 squote @ ''a.mp4'' @ replicate 2 squote) = clean_to_filename ''a.mp4''"
proof -
  have h: "list_all isspace '' ''" "unpadded isspace ''a.mp4''" "unpadded (\<lambda>c. c = dquote) ''a.mp4''"
    by (simp_all add: isspace_def unpadded_def)
  show ?thesis
    using h clean_strips_every_layer [of "'' ''" "'' ''" "''a.mp4''" 2 2] by blast
qed

theorem doubled_quotes_counterexample:
  "clean_to_filename ([dquote, dquote] @ ''a.mp4'' @ [dquote, dquote]) = ''a.mp4'' \<and>
   clean_to_filename ([dquote, dquote] @ ''a.mp4'' @ [dquote, dquote]) \<noteq> [dquote] @ ''a.mp4'' @ [dquote]"
  by code_simp

section \<open>Path normalisation: bare names\<close>

lemma tail_name_single:
  "sep \<notin> set s \<Longrightarrow> tail_name sep s = (if s = [] \<or> s = [dot] then [] else s)"
  by (simp add: tail_name_def split_on_absent)

lemma take_1_not: "c \<notin> set s \<Longrightarrow> take (Suc 0) s \<noteq> [c]"
  by (cases s) auto

lemma not_long_path:
  assumes "bslash \<notin> set s"
  shows "\<not> startswith long_path_prefix s"
proof
  assume "startswith long_path_prefix s"
  then have "take (length long_path_prefix) s = long_path_prefix"
    unfolding startswith_def .
  then have "set long_path_prefix \<subseteq> set s"
    by (metis set_take_subset)
  moreover have "bslash \<in> set long_path_prefix"
    by (simp add: long_path_prefix_def)
  ultimately show False using assms by auto
qed

lemma replace_char_absent: "a \<notin> set s \<Longrightarrow> replace_char a b s = s"
  unfolding replace_char_def by (induction s) auto

lemma windows_name_bare:
  assumes "fslash \<notin> set s" "bslash \<notin> set s" "take 1 (drop 1 s) \<noteq> [colon]" "s \<noteq> [dot]"
  shows "PureWindowsPath_name s = s"
proof -
  have r: "replace_char fslash bslash s = s"
    using assms(1) by (rule replace_char_absent)
  have "nt_rel s = s"
    using assms(2,3) by (simp add: nt_rel_def take_1_not)
  with r assms(2,4) show ?thesis
    by (simp add: PureWindowsPath_name_def tail_name_single)
qed

lemma posix_name_bare:
  assumes "fslash \<notin> set s" "s \<noteq> [dot]"
  shows "PurePosixPath_name s = s"
proof -
  have "posix_rel s = s"
    using assms(1) by (simp add: posix_rel_def take_1_not)
  with assms show ?thesis
    by (simp add: PurePosixPath_name_def tail_name_single)
qed

text \<open>
  Claim C8, amended. The normalisation returns a string unchanged when the string has no
  path separator (slash or backslash), no whitespace and no quote as its first or last character,
  no colon as its second character (a drive), and is not the single dot.
\<close>

theorem clean_identity_on_bare_names:
  assumes "fslash \<notin> set s" and "bslash \<notin> set s"
    and "unpadded isspace s"
    and "unpadded (\<lambda>c. c = dquote \<or> c = squote) s"
    and "take 1 (drop 1 s) \<noteq> [colon]"
    and "s \<noteq> [dot]"
  shows "clean_to_filename s = s"
proof -
  have q: "unpadded (\<lambda>c. c \<in> set [dquote]) s" "unpadded (\<lambda>c. c \<in> set [squote]) s"
    using assms(4) by (auto simp: unpadded_iff)
  have "strip s = s" using assms(3) by (rule strip_unpadded)
  moreover have "strip_chars [dquote] s = s" using q(1) by (rule strip_chars_unpadded)
  moreover have "strip_chars [squote] s = s" using q(2) by (rule strip_chars_unpadded)
  moreover have "\<not> startswith long_path_prefix s" using assms(2) by (rule not_long_path)
  moreover have "PureWindowsPath_name s = s"
    using assms(1,2,5,6) by (simp add: windows_name_bare)
  moreover have "PurePosixPath_name s = s"
    using assms(1,6) by (simp add: posix_name_bare)
  ultimately show ?thesis
    by (simp add: clean_to_filename_def)
qed

theorem clean_identity_on_bare_names_witness:
  "clean_to_filename ''clip01.mp4'' = ''clip01.mp4''"
  using clean_identity_on_bare_names [of "''clip01.mp4''"]
  by (simp add: unpadded_def isspace_def)

theorem bare_name_counterexample:
  "fslash \<notin> set '' a.mp4'' \<and> bslash \<notin> set '' a.mp4'' \<and>
   clean_to_filename '' a.mp4'' \<noteq> '' a.mp4'' \<and>
   fslash \<notin> set ''C:a.mp4'' \<and> bslash \<notin> set ''C:a.mp4'' \<and>
   clean_to_filename ''C:a.mp4'' \<noteq> ''C:a.mp4''"
  by code_simp

section \<open>The folder scan\<close>

lemma rglob_beneath: "f \<in> set (rglob d) \<Longrightarrow> beneath f d"
proof (induction d rule: rglob.induct)
  case (1 n es)
  then show ?case by (auto intro: beneath.intros)
qed simp_all

lemma beneath_rglob: "beneath f d \<Longrightarrow> f \<in> set (rglob d)"
  by (induction rule: beneath.induct) auto

lemma set_rglob: "set (rglob d) = {f. beneath f d}"
  by (auto intro: rglob_beneath beneath_rglob)

lemma is_file_iff: "is_file f \<longleftrightarrow> (\<exists>r. resolve f = Some (Regular r))"
  by (auto simp: is_file_def split: option.splits fsnode.splits)

text \<open>
  Claim C6, amended. The folder scan returns the names of the entries beneath the
  directory that are regular files or symbolic links resolving to a regular file:
  directories, dangling links and links to directories give no name, and the name of a
  link to a regular file is in the result.
\<close>

theorem scan_follows_links:
  assumes "lookup e folder = Some (Directory n es)"
  shows "snd (scan_folder_filenames e folder) =
           {nm f | f. beneath f (Directory n es) \<and> (\<exists>r. resolve f = Some (Regular r))}"
proof -
  have "snd (scan_folder_filenames e folder) =
          nm ` {f \<in> set (rglob (Directory n es)). is_file f}"
    using assms by (simp add: scan_folder_filenames_def del: rglob.simps)
  also have "\<dots> = {nm f | f. beneath f (Directory n es) \<and> (\<exists>r. resolve f = Some (Regular r))}"
    unfolding set_rglob is_file_iff by blast
  finally show ?thesis .
qed

lemma links_lookup: "lookup studio ''/links'' = Some links_tree"
  by code_simp

lemma links_scan: "snd (scan_folder_filenames studio ''/links'') = {''l.mp4''}"
  by code_simp

theorem scan_follows_links_witness:
  "lookup studio ''/links'' = Some links_tree \<and>
   {''l.mp4''} = {nm f | f. beneath f links_tree \<and> (\<exists>r. resolve f = Some (Regular r))}"
  using scan_follows_links [of studio "''/links''" "''links''"] links_lookup links_scan
  by (simp add: links_tree_def)

theorem symlink_counterexample:
  "lookup studio ''/links'' = Some links_tree \<and>
   beneath (Symlink ''l.mp4'' (Some (Regular ''master.mp4''))) links_tree \<and>
   ''l.mp4'' \<in> snd (scan_folder_filenames studio ''/links'')"
  by (simp add: links_lookup links_scan) (simp add: links_tree_def beneath.child)

end
